theory Spec2Isabelle
  imports Main "HOL-Library.Sublist" "HOL-Library.Char_ord" "HOL-Library.List_Lexorder"
begin

section \<open>The migration applier of whatsapp-bridge (migrations.go)\<close>

text \<open>
  The development embeds \<^verbatim>\<open>migrations.go\<close>: the \<^verbatim>\<open>Migration\<close> struct, the five
  methods of \<^verbatim>\<open>MigrationManager\<close> and the parts of the Go standard library they call.
  The database handle \<^verbatim>\<open>mm.db\<close>, the migrations directory and the standard output are
  made explicit: every method takes the state it acts on and returns the new one.
\<close>

subsection \<open>Data\<close>

text \<open>\<^verbatim>\<open>type Migration struct { Version int; Name string; SQL string }\<close>\<close>

record Migration =
  Version :: int
  Name :: string
  SQL :: string

text \<open>
  A Go \<^verbatim>\<open>error\<close>: either an error of the environment (the database driver, the file
  system), kept as its message, or \<^verbatim>\<open>fmt.Errorf("<context>: %w", err)\<close>, which wraps
  an error under a context string.
\<close>

datatype error = Cause string | Errorf string error


text \<open>
  The statements the applier sends to the database: the \<^verbatim>\<open>CREATE TABLE IF NOT EXISTS\<close>
  of \<^verbatim>\<open>InitMigrationTable\<close>, the \<^verbatim>\<open>SELECT version\<close> of \<^verbatim>\<open>GetAppliedMigrations\<close>, the
  body of a migration, and the parameterised \<^verbatim>\<open>INSERT INTO migrations (version, name)\<close>.
\<close>

datatype call = CreateTable | SelectVersions | ExecBody string | InsertRecord int string

text \<open>
  The state the applier acts on.
  \<^item> \<open>table\<close>: the rows (version, name) of the bookkeeping table \<^verbatim>\<open>migrations\<close> in the
    order of their insertion, \<open>None\<close> while the table does not exist. The column
    \<^verbatim>\<open>applied_at\<close> is a clock reading and is left out.
  \<^item> \<open>user\<close>: the rest of the database, which the migration bodies act on.
  \<^item> \<open>faults\<close>: what the environment holds for the coming database calls, one entry per
    call: \<open>Some msg\<close> makes the call fail with that message whatever the statement is
    (disk full, database locked), \<open>None\<close> lets the statement run.
  \<^item> \<open>calls\<close>: every statement the database has received, with whether it succeeded.
  \<^item> \<open>stdout\<close>: the lines printed by \<^verbatim>\<open>fmt.Printf\<close> and \<^verbatim>\<open>fmt.Println\<close>.
  \<^item> \<open>visited\<close>: the versions the \<^verbatim>\<open>range\<close> loop of \<^verbatim>\<open>RunMigrations\<close> has reached, in
    order (a history variable: the program does not read it).
\<close>

record 'u state =
  table :: "(int \<times> string) list option"
  user :: 'u
  faults :: "string option list"
  calls :: "(call \<times> bool) list"
  stdout :: "string list"
  visited :: "int list"

text \<open>
  The database engine on migration bodies: from the statement text and the user data to
  the new user data and the error, if any. A failing body may have changed the data
  (\<^verbatim>\<open>db.Exec\<close> runs outside a transaction; statements before the failing one stay).
  Bodies act on the user data only.
\<close>

type_synonym 'u engine = "string \<Rightarrow> 'u \<Rightarrow> 'u \<times> string option"

text \<open>
  The migrations directory: its entries by name, each with the content of the file or
  the message of the error that reading it gives (the first entry of a name counts).
\<close>

type_synonym directory = "(string \<times> (string + string)) list"

subsection \<open>The Go standard library\<close>

text \<open>
  \<^verbatim>\<open>%d\<close> of \<^verbatim>\<open>fmt\<close>: the decimal digits of an integer, with a minus sign when negative.
\<close>

definition digit_char :: "nat \<Rightarrow> char" where
  "digit_char n = ''0123456789'' ! n"

function utoa :: "nat \<Rightarrow> string" where
  "utoa n = (if n < 10 then [digit_char n] else utoa (n div 10) @ [digit_char (n mod 10)])"
  by pat_completeness auto
termination
  by (relation "measure id") auto

declare utoa.simps [simp del]

definition itoa :: "int \<Rightarrow> string" where
  "itoa i = (if i < 0 then CHR ''-'' # utoa (nat (- i)) else utoa (nat i))"

text \<open>
  \<^verbatim>\<open>strconv.Atoi\<close> on a 64-bit platform: an optional sign, then at least one decimal
  digit and nothing else; a value outside the range of \<^verbatim>\<open>int\<close> is an error.
\<close>

definition is_digit :: "char \<Rightarrow> bool" where
  "is_digit c = (c \<in> set ''0123456789'')"

definition digit_val :: "char \<Rightarrow> int" where
  "digit_val c = int (of_char c) - 48"

definition decimal :: "string \<Rightarrow> int" where
  "decimal ds = foldl (\<lambda>n ch. n * 10 + digit_val ch) 0 ds"

definition Atoi :: "string \<Rightarrow> int option" where
  "Atoi s =
     (let neg = (s \<noteq> [] \<and> hd s = CHR ''-'');
          ds = (if s \<noteq> [] \<and> (hd s = CHR ''-'' \<or> hd s = CHR ''+'') then tl s else s)
      in if ds = [] \<or> \<not> list_all is_digit ds then None
         else let n = decimal ds;
                  v = (if neg then - n else n)
              in if v < - (2 ^ 63) \<or> 2 ^ 63 - 1 < v then None else Some v)"

text \<open>
  \<^verbatim>\<open>strings.SplitN(s, "_", 2)\<close>: the text before and the text after the first underscore,
  or the text alone when it has no underscore.
\<close>

definition SplitN :: "string \<Rightarrow> string list" where
  "SplitN s =
     (if CHR ''_'' \<in> set s
      then [takeWhile (\<lambda>c. c \<noteq> CHR ''_'') s, tl (dropWhile (\<lambda>c. c \<noteq> CHR ''_'') s)]
      else [s])"

text \<open>\<^verbatim>\<open>strings.TrimSuffix\<close>.\<close>

definition TrimSuffix :: "string \<Rightarrow> string \<Rightarrow> string" where
  "TrimSuffix s suf = (if suffix suf s then take (length s - length suf) s else s)"

text \<open>
  The entries of the directory that the pattern \<^verbatim>\<open>migrations/*.sql\<close> matches: those whose
  names end in \<^verbatim>\<open>.sql\<close>, sorted by name. A file is identified by its entry name here:
  \<^verbatim>\<open>filepath.Base\<close> gives back the name that \<^verbatim>\<open>Glob\<close> put after \<^verbatim>\<open>migrations/\<close>.
\<close>

definition sql_files :: "directory \<Rightarrow> string list" where
  "sql_files dir = sort (remdups (filter (suffix ''.sql'') (map fst dir)))"

text \<open>
  \<^verbatim>\<open>filepath.Glob(filepath.Join("migrations", "*.sql"))\<close>. \<^verbatim>\<open>Glob\<close> ignores I/O errors, and
  the only error it returns is that of a malformed pattern, which this pattern is not.
\<close>

definition Glob :: "directory \<Rightarrow> error + string list" where
  "Glob dir = Inr (sql_files dir)"

text \<open>\<^verbatim>\<open>ioutil.ReadFile\<close>; a name that is not in the directory cannot be read.\<close>

definition ReadFile :: "directory \<Rightarrow> string \<Rightarrow> error + string" where
  "ReadFile dir file =
     (case map_of dir file of
        None \<Rightarrow> Inl (Cause ''no such file or directory'')
      | Some (Inl msg) \<Rightarrow> Inl (Cause msg)
      | Some (Inr content) \<Rightarrow> Inr content)"

text \<open>
  \<^verbatim>\<open>sort.Slice\<close> with the comparison \<^verbatim>\<open>migrations[i].Version < migrations[j].Version\<close>:
  an ordering of the slice by version. Go leaves the order of equal versions open; the
  model keeps them in the order they had, as Go's insertion sort does on a slice of at
  most 12 elements.
\<close>

definition sort_Slice :: "Migration list \<Rightarrow> Migration list" where
  "sort_Slice migrations = sort_key Version migrations"

subsection \<open>The database calls\<close>

definition take_fault :: "'u state \<Rightarrow> string option \<times> 'u state" where
  "take_fault s = (case faults s of [] \<Rightarrow> (None, s) | f # fs \<Rightarrow> (f, s\<lparr>faults := fs\<rparr>))"

definition logged :: "call \<Rightarrow> bool \<Rightarrow> 'u state \<Rightarrow> 'u state" where
  "logged c ok s = s\<lparr>calls := calls s @ [(c, ok)]\<rparr>"

text \<open>\<^verbatim>\<open>CREATE TABLE IF NOT EXISTS migrations (...)\<close>\<close>

definition db_create_table :: "'u state \<Rightarrow> error option \<times> 'u state" where
  "db_create_table s =
     (case take_fault s of
        (Some msg, s1) \<Rightarrow> (Some (Cause msg), logged CreateTable False s1)
      | (None, s1) \<Rightarrow>
          (None, logged CreateTable True
             (s1\<lparr>table := Some (case table s1 of None \<Rightarrow> [] | Some rows \<Rightarrow> rows)\<rparr>)))"

text \<open>\<^verbatim>\<open>SELECT version FROM migrations ORDER BY version\<close>\<close>

definition db_select_versions :: "'u state \<Rightarrow> (error + int list) \<times> 'u state" where
  "db_select_versions s =
     (case take_fault s of
        (Some msg, s1) \<Rightarrow> (Inl (Cause msg), logged SelectVersions False s1)
      | (None, s1) \<Rightarrow>
          (case table s1 of
             None \<Rightarrow> (Inl (Cause ''no such table: migrations''), logged SelectVersions False s1)
           | Some rows \<Rightarrow> (Inr (sort (map fst rows)), logged SelectVersions True s1)))"

text \<open>\<^verbatim>\<open>mm.db.Exec(migration.SQL)\<close>\<close>

definition db_exec_body :: "'u engine \<Rightarrow> string \<Rightarrow> 'u state \<Rightarrow> error option \<times> 'u state" where
  "db_exec_body engine sql s =
     (case take_fault s of
        (Some msg, s1) \<Rightarrow> (Some (Cause msg), logged (ExecBody sql) False s1)
      | (None, s1) \<Rightarrow>
          (case engine sql (user s1) of
             (u, Some msg) \<Rightarrow> (Some (Cause msg), logged (ExecBody sql) False (s1\<lparr>user := u\<rparr>))
           | (u, None) \<Rightarrow> (None, logged (ExecBody sql) True (s1\<lparr>user := u\<rparr>))))"

text \<open>
  \<^verbatim>\<open>INSERT INTO migrations (version, name) VALUES (?, ?)\<close>; \<^verbatim>\<open>version\<close> is the primary key
  of the table, so a second row of a version is refused.
\<close>

definition db_insert_record :: "int \<Rightarrow> string \<Rightarrow> 'u state \<Rightarrow> error option \<times> 'u state" where
  "db_insert_record v n s =
     (case take_fault s of
        (Some msg, s1) \<Rightarrow> (Some (Cause msg), logged (InsertRecord v n) False s1)
      | (None, s1) \<Rightarrow>
          (case table s1 of
             None \<Rightarrow> (Some (Cause ''no such table: migrations''), logged (InsertRecord v n) False s1)
           | Some rows \<Rightarrow>
               if v \<in> fst ` set rows
               then (Some (Cause ''UNIQUE constraint failed: migrations.version''),
                     logged (InsertRecord v n) False s1)
               else (None, logged (InsertRecord v n) True (s1\<lparr>table := Some (rows @ [(v, n)])\<rparr>))))"

subsection \<open>The methods of MigrationManager\<close>

definition InitMigrationTable :: "'u state \<Rightarrow> error option \<times> 'u state" where
  "InitMigrationTable s = db_create_table s"

definition GetAppliedMigrations :: "'u state \<Rightarrow> (error + int list) \<times> 'u state" where
  "GetAppliedMigrations s =
     (case db_select_versions s of
        (Inl err, s1) \<Rightarrow> (Inl err, s1)
      | (Inr rows, s1) \<Rightarrow> (Inr (foldl (\<lambda>versions version. versions @ [version]) [] rows), s1))"

text \<open>
  One round of the loop over the files of \<^verbatim>\<open>LoadMigrations\<close> (lines 70 to 97):
  \<open>None\<close> is \<^verbatim>\<open>continue\<close>, \<open>Some (Inl err)\<close> is the early return of the error,
  \<open>Some (Inr m)\<close> is the migration appended to the slice.
\<close>

definition load_file :: "directory \<Rightarrow> string \<Rightarrow> (error + Migration) option" where
  "load_file dir file =
     (let parts = SplitN file in
      if length parts < 2 then None
      else case Atoi (parts ! 0) of
        None \<Rightarrow> None
      | Some version \<Rightarrow>
          (case ReadFile dir file of
             Inl err \<Rightarrow> Some (Inl (Errorf (''failed to read migration file migrations/'' @ file) err))
           | Inr content \<Rightarrow>
               Some (Inr \<lparr>Version = version, Name = TrimSuffix (parts ! 1) ''.sql'',
                          SQL = content\<rparr>)))"

fun load_files :: "directory \<Rightarrow> string list \<Rightarrow> Migration list \<Rightarrow> error + Migration list" where
  "load_files dir [] migrations = Inr migrations"
| "load_files dir (file # files) migrations =
     (case load_file dir file of
        None \<Rightarrow> load_files dir files migrations
      | Some (Inl err) \<Rightarrow> Inl err
      | Some (Inr m) \<Rightarrow> load_files dir files (migrations @ [m]))"

definition LoadMigrations :: "directory \<Rightarrow> error + Migration list" where
  "LoadMigrations dir =
     (case Glob dir of
        Inl err \<Rightarrow> Inl (Errorf ''failed to read migrations directory'' err)
      | Inr files \<Rightarrow>
          (case load_files dir files [] of
             Inl err \<Rightarrow> Inl err
           | Inr migrations \<Rightarrow> Inr (sort_Slice migrations)))"

definition ApplyMigration :: "'u engine \<Rightarrow> Migration \<Rightarrow> 'u state \<Rightarrow> error option \<times> 'u state" where
  "ApplyMigration engine migration s =
     (case db_exec_body engine (SQL migration) s of
        (Some err, s1) \<Rightarrow>
          (Some (Errorf (''failed to apply migration '' @ itoa (Version migration) @
                         '' ('' @ Name migration @ '')'') err), s1)
      | (None, s1) \<Rightarrow>
          (case db_insert_record (Version migration) (Name migration) s1 of
             (Some err, s2) \<Rightarrow>
               (Some (Errorf (''failed to record migration '' @ itoa (Version migration)) err), s2)
           | (None, s2) \<Rightarrow>
               (None, s2\<lparr>stdout := stdout s2 @
                  [''Applied migration '' @ itoa (Version migration) @ '': '' @ Name migration]\<rparr>)))"

text \<open>
  The loop over the loaded migrations of \<^verbatim>\<open>RunMigrations\<close> (lines 155 to 163), with
  \<^verbatim>\<open>appliedCount\<close> as an accumulator. \<^verbatim>\<open>appliedMap\<close> is a Go map to \<^verbatim>\<open>bool\<close>, which
  reads \<^verbatim>\<open>false\<close> at a key it does not hold.
\<close>

fun apply_pending ::
  "'u engine \<Rightarrow> (int \<Rightarrow> bool) \<Rightarrow> Migration list \<Rightarrow> nat \<Rightarrow> 'u state \<Rightarrow> (error + nat) \<times> 'u state"
where
  "apply_pending engine appliedMap [] appliedCount s = (Inr appliedCount, s)"
| "apply_pending engine appliedMap (migration # rest) appliedCount s =
     (let s0 = s\<lparr>visited := visited s @ [Version migration]\<rparr> in
      if \<not> appliedMap (Version migration)
      then (case ApplyMigration engine migration s0 of
              (Some err, s1) \<Rightarrow> (Inl err, s1)
            | (None, s1) \<Rightarrow> apply_pending engine appliedMap rest (appliedCount + 1) s1)
      else apply_pending engine appliedMap rest appliedCount s0)"

definition RunMigrations :: "'u engine \<Rightarrow> directory \<Rightarrow> 'u state \<Rightarrow> error option \<times> 'u state" where
  "RunMigrations engine dir s =
     (case InitMigrationTable s of
        (Some err, s1) \<Rightarrow> (Some (Errorf ''failed to initialize migration table'' err), s1)
      | (None, s1) \<Rightarrow>
          (case GetAppliedMigrations s1 of
             (Inl err, s2) \<Rightarrow> (Some (Errorf ''failed to get applied migrations'' err), s2)
           | (Inr appliedVersions, s2) \<Rightarrow>
               (let appliedMap = foldl (\<lambda>m version. m(version := True)) (\<lambda>_. False) appliedVersions
                in case LoadMigrations dir of
                     Inl err \<Rightarrow> (Some (Errorf ''failed to load migrations'' err), s2)
                   | Inr migrations \<Rightarrow>
                       (case apply_pending engine appliedMap migrations 0 s2 of
                          (Inl err, s3) \<Rightarrow> (Some err, s3)
                        | (Inr appliedCount, s3) \<Rightarrow>
                            (None, s3\<lparr>stdout := stdout s3 @
                               [if appliedCount = 0 then ''No pending migrations to apply''
                                else ''Applied '' @ itoa (int appliedCount) @
                                     '' migrations successfully'']\<rparr>)))))"

subsection \<open>Vocabulary of the properties\<close>

text \<open>The rows of the bookkeeping table; none while the table does not exist.\<close>

definition rows :: "'u state \<Rightarrow> (int \<times> string) list" where
  "rows s = (case table s of None \<Rightarrow> [] | Some rs \<Rightarrow> rs)"

text \<open>
  What one successful \<^verbatim>\<open>ApplyMigration\<close> leaves behind: its two database calls, its row
  in the bookkeeping table and its line on the standard output.
\<close>

definition apply_calls :: "Migration \<Rightarrow> (call \<times> bool) list" where
  "apply_calls m = [(ExecBody (SQL m), True), (InsertRecord (Version m) (Name m), True)]"

definition record_of :: "Migration \<Rightarrow> int \<times> string" where
  "record_of m = (Version m, Name m)"

definition applied_line :: "Migration \<Rightarrow> string" where
  "applied_line m = ''Applied migration '' @ itoa (Version m) @ '': '' @ Name m"

text \<open>The last line \<^verbatim>\<open>RunMigrations\<close> prints.\<close>

definition summary_line :: "nat \<Rightarrow> string" where
  "summary_line appliedCount =
     (if appliedCount = 0 then ''No pending migrations to apply''
      else ''Applied '' @ itoa (int appliedCount) @ '' migrations successfully'')"

text \<open>The migrations of a list that \<^verbatim>\<open>appliedMap\<close> does not hold, in the order of the list.\<close>

definition pending :: "(int \<Rightarrow> bool) \<Rightarrow> Migration list \<Rightarrow> Migration list" where
  "pending appliedMap migrations = filter (\<lambda>m. \<not> appliedMap (Version m)) migrations"

text \<open>The migrations that the files of a list give, in the order of the files.\<close>

definition loaded :: "directory \<Rightarrow> string list \<Rightarrow> Migration list" where
  "loaded dir files =
     concat (map (\<lambda>file. case load_file dir file of Some (Inr m) \<Rightarrow> [m] | _ \<Rightarrow> []) files)"

text \<open>
  The two ways \<^verbatim>\<open>ApplyMigration\<close> fails: at the execution of the body, or at the insertion
  of the record after the body has executed.
\<close>

definition body_failure :: "'u engine \<Rightarrow> Migration \<Rightarrow> 'u state \<Rightarrow> error \<Rightarrow> 'u state \<Rightarrow> bool" where
  "body_failure engine m s e s' =
     (case db_exec_body engine (SQL m) s of
        (Some cause, s1) \<Rightarrow>
          s' = s1 \<and>
          e = Errorf (''failed to apply migration '' @ itoa (Version m) @
                      '' ('' @ Name m @ '')'') cause
      | (None, s1) \<Rightarrow> False)"

definition record_failure :: "'u engine \<Rightarrow> Migration \<Rightarrow> 'u state \<Rightarrow> error \<Rightarrow> 'u state \<Rightarrow> bool" where
  "record_failure engine m s e s' =
     (case db_exec_body engine (SQL m) s of
        (Some cause, s1) \<Rightarrow> False
      | (None, s1) \<Rightarrow>
          (case db_insert_record (Version m) (Name m) s1 of
             (Some cause, s2) \<Rightarrow>
               s' = s2 \<and> e = Errorf (''failed to record migration '' @ itoa (Version m)) cause
           | (None, s2) \<Rightarrow> False))"



subsection \<open>The invariant of the bookkeeping table\<close>







subsection \<open>Example inputs\<close>

text \<open>An engine that accepts every body and keeps the bodies it has executed.\<close>

definition log_engine :: "string list engine" where
  "log_engine sql u = (u @ [sql], None)"

definition dir_123 :: directory where
  "dir_123 = [(''3_c.sql'', Inr ''C''), (''1_a.sql'', Inr ''A''), (''2_b.sql'', Inr ''B'')]"

definition state_2_applied :: "string list state" where
  "state_2_applied =
     \<lparr>table = Some [(2, ''b'')], user = [], faults = [], calls = [], stdout = [], visited = []\<rparr>"


text \<open>A database without the bookkeeping table, and no fault to come.\<close>

definition fresh_state :: "string list state" where
  "fresh_state =
     \<lparr>table = None, user = [], faults = [], calls = [], stdout = [], visited = []\<rparr>"

text \<open>Two files of the version 1.\<close>

definition dir_dup :: directory where
  "dir_dup = [(''1_a.sql'', Inr ''A''), (''01_b.sql'', Inr ''B'')]"









section \<open>Properties\<close>

subsection \<open>The database calls and ApplyMigration\<close>

lemmas db_defs = take_fault_def logged_def db_create_table_def db_select_versions_def
  db_exec_body_def db_insert_record_def

lemma exec_body_ok:
  assumes "db_exec_body engine sql s = (None, s1)"
  shows "table s1 = table s" "calls s1 = calls s @ [(ExecBody sql, True)]"
    "visited s1 = visited s" "stdout s1 = stdout s" "faults s1 = tl (faults s)"
    "engine sql (user s) = (user s1, None)"
  using assms by (auto simp: db_defs split: list.splits option.splits prod.splits)

lemma exec_body_err:
  assumes "db_exec_body engine sql s = (Some e, s1)"
  shows "table s1 = table s" "calls s1 = calls s @ [(ExecBody sql, False)]"
    "visited s1 = visited s" "stdout s1 = stdout s" "faults s1 = tl (faults s)"
    "\<exists>msg. e = Cause msg"
  using assms by (auto simp: db_defs split: list.splits option.splits prod.splits)

lemma insert_record_ok:
  assumes "db_insert_record v n s = (None, s1)"
  shows "\<exists>rs. table s = Some rs \<and> v \<notin> fst ` set rs \<and> table s1 = Some (rs @ [(v, n)])"
    "calls s1 = calls s @ [(InsertRecord v n, True)]"
    "visited s1 = visited s" "stdout s1 = stdout s" "faults s1 = tl (faults s)"
    "user s1 = user s"
  using assms by (auto simp: db_defs split: list.splits option.splits prod.splits if_splits)

lemma insert_record_err:
  assumes "db_insert_record v n s = (Some e, s1)"
  shows "table s1 = table s" "calls s1 = calls s @ [(InsertRecord v n, False)]"
    "visited s1 = visited s" "stdout s1 = stdout s" "faults s1 = tl (faults s)"
    "user s1 = user s" "\<exists>msg. e = Cause msg"
  using assms by (auto simp: db_defs split: list.splits option.splits prod.splits if_splits)

lemma ApplyMigration_ok:
  assumes "ApplyMigration engine m s = (None, s')"
  shows "\<exists>rs. table s = Some rs \<and> Version m \<notin> fst ` set rs \<and> table s' = Some (rs @ [record_of m])"
    "calls s' = calls s @ apply_calls m"
    "visited s' = visited s"
    "stdout s' = stdout s @ [applied_line m]"
    "engine (SQL m) (user s) = (user s', None)"
proof -
  from assms obtain s1 s2 where
    1: "db_exec_body engine (SQL m) s = (None, s1)" and
    2: "db_insert_record (Version m) (Name m) s1 = (None, s2)" and
    3: "s' = s2\<lparr>stdout := stdout s2 @ [applied_line m]\<rparr>"
    by (auto simp: ApplyMigration_def applied_line_def split: prod.splits option.splits)
  show "\<exists>rs. table s = Some rs \<and> Version m \<notin> fst ` set rs \<and> table s' = Some (rs @ [record_of m])"
    using exec_body_ok(1)[OF 1] insert_record_ok(1)[OF 2] 3 by (simp add: record_of_def)
  show "calls s' = calls s @ apply_calls m"
    using exec_body_ok(2)[OF 1] insert_record_ok(2)[OF 2] 3 by (simp add: apply_calls_def)
  show "visited s' = visited s"
    using exec_body_ok(3)[OF 1] insert_record_ok(3)[OF 2] 3 by simp
  show "stdout s' = stdout s @ [applied_line m]"
    using exec_body_ok(4)[OF 1] insert_record_ok(4)[OF 2] 3 by simp
  show "engine (SQL m) (user s) = (user s', None)"
    using exec_body_ok(6)[OF 1] insert_record_ok(6)[OF 2] 3 by simp
qed

lemma ApplyMigration_err:
  assumes "ApplyMigration engine m s = (Some e, s')"
  shows "body_failure engine m s e s' \<or> record_failure engine m s e s'"
  using assms unfolding ApplyMigration_def body_failure_def record_failure_def
  by (auto split: prod.splits option.splits)

lemma body_failureD:
  assumes "body_failure engine m s e s'"
  obtains cause where "db_exec_body engine (SQL m) s = (Some cause, s')"
    "e = Errorf (''failed to apply migration '' @ itoa (Version m) @ '' ('' @ Name m @ '')'') cause"
  using assms unfolding body_failure_def by (auto split: prod.splits option.splits)

lemma record_failureD:
  assumes "record_failure engine m s e s'"
  obtains cause s1 where "db_exec_body engine (SQL m) s = (None, s1)"
    "db_insert_record (Version m) (Name m) s1 = (Some cause, s')"
    "e = Errorf (''failed to record migration '' @ itoa (Version m)) cause"
  using assms unfolding record_failure_def by (auto split: prod.splits option.splits)

lemma body_failure_frame:
  assumes "body_failure engine m s e s'"
  shows "table s' = table s" "calls s' = calls s @ [(ExecBody (SQL m), False)]"
    "visited s' = visited s" "stdout s' = stdout s"
  using assms by (auto elim!: body_failureD dest: exec_body_err)

lemma record_failure_frame:
  assumes "record_failure engine m s e s'"
  shows "table s' = table s"
    "calls s' = calls s @ [(ExecBody (SQL m), True), (InsertRecord (Version m) (Name m), False)]"
    "visited s' = visited s" "stdout s' = stdout s" "engine (SQL m) (user s) = (user s', None)"
proof -
  from assms obtain cause s1 where
    1: "db_exec_body engine (SQL m) s = (None, s1)" and
    2: "db_insert_record (Version m) (Name m) s1 = (Some cause, s')"
    by (rule record_failureD)
  show "table s' = table s"
    using exec_body_ok(1)[OF 1] insert_record_err(1)[OF 2] by simp
  show "calls s' = calls s @ [(ExecBody (SQL m), True), (InsertRecord (Version m) (Name m), False)]"
    using exec_body_ok(2)[OF 1] insert_record_err(2)[OF 2] by simp
  show "visited s' = visited s"
    using exec_body_ok(3)[OF 1] insert_record_err(3)[OF 2] by simp
  show "stdout s' = stdout s"
    using exec_body_ok(4)[OF 1] insert_record_err(4)[OF 2] by simp
  show "engine (SQL m) (user s) = (user s', None)"
    using exec_body_ok(6)[OF 1] insert_record_err(6)[OF 2] by simp
qed

subsection \<open>The loop of RunMigrations\<close>

lemma pending_simps [simp]:
  "pending am [] = []"
  "pending am (m # ms) = (if am (Version m) then pending am ms else m # pending am ms)"
  "pending am (xs @ ys) = pending am xs @ pending am ys"
  by (simp_all add: pending_def)


lemma apply_pending_ok:
  assumes "apply_pending engine am ms n s = (Inr k, s')"
  shows "k = n + length (pending am ms)
    \<and> calls s' = calls s @ concat (map apply_calls (pending am ms))
    \<and> visited s' = visited s @ map Version ms
    \<and> stdout s' = stdout s @ map applied_line (pending am ms)
    \<and> table s' = map_option (\<lambda>rs. rs @ map record_of (pending am ms)) (table s)
    \<and> (pending am ms \<noteq> [] \<longrightarrow> table s \<noteq> None)
    \<and> distinct (map Version (pending am ms))
    \<and> Version ` set (pending am ms) \<inter> fst ` set (rows s) = {}"
  using assms
proof (induction ms arbitrary: n s)
  case Nil
  then show ?case by (simp add: option.map_ident)
next
  case (Cons m ms)
  let ?s0 = "s\<lparr>visited := visited s @ [Version m]\<rparr>"
  show ?case
  proof (cases "am (Version m)")
    case True
    with Cons.prems have "apply_pending engine am ms n ?s0 = (Inr k, s')" by simp
    from Cons.IH[OF this] True show ?thesis by (simp add: rows_def)
  next
    case False
    with Cons.prems obtain s1 where
      a: "ApplyMigration engine m ?s0 = (None, s1)" and
      r: "apply_pending engine am ms (n + 1) s1 = (Inr k, s')"
      by (auto split: prod.splits option.splits)
    from ApplyMigration_ok(1)[OF a] obtain rs where
      t: "table s = Some rs" "Version m \<notin> fst ` set rs" "table s1 = Some (rs @ [record_of m])"
      by auto
    note c = ApplyMigration_ok(2)[OF a] and v = ApplyMigration_ok(3)[OF a]
      and p = ApplyMigration_ok(4)[OF a]
    from Cons.IH[OF r] have ih:
      "k = n + 1 + length (pending am ms)"
      "calls s' = calls s1 @ concat (map apply_calls (pending am ms))"
      "visited s' = visited s1 @ map Version ms"
      "stdout s' = stdout s1 @ map applied_line (pending am ms)"
      "table s' = map_option (\<lambda>rs. rs @ map record_of (pending am ms)) (table s1)"
      "distinct (map Version (pending am ms))"
      "Version ` set (pending am ms) \<inter> fst ` set (rows s1) = {}"
      by simp_all
    have r1: "rows s1 = rs @ [record_of m]" "rows s = rs"
      using t by (simp_all add: rows_def)
    have "Version m \<notin> Version ` set (pending am ms)"
      using ih(7) r1 by (auto simp: record_of_def)
    moreover have "Version ` set (pending am ms) \<inter> fst ` set rs = {}"
      using ih(7) r1 by auto
    ultimately show ?thesis
      using False ih t c v p r1 by simp
  qed
qed

lemma apply_pending_err:
  assumes "apply_pending engine am ms n s = (Inl e, s')"
  shows "\<exists>xs f ys k sp. ms = xs @ f # ys \<and> \<not> am (Version f)
    \<and> apply_pending engine am xs n s = (Inr k, sp)
    \<and> ApplyMigration engine f (sp\<lparr>visited := visited sp @ [Version f]\<rparr>) = (Some e, s')"
  using assms
proof (induction ms arbitrary: n s)
  case Nil
  then show ?case by simp
next
  case (Cons m ms)
  let ?s0 = "s\<lparr>visited := visited s @ [Version m]\<rparr>"
  show ?case
  proof (cases "am (Version m)")
    case True
    with Cons.prems have "apply_pending engine am ms n ?s0 = (Inl e, s')" by simp
    from Cons.IH[OF this] obtain xs f ys k sp where
      h: "ms = xs @ f # ys" "\<not> am (Version f)" "apply_pending engine am xs n ?s0 = (Inr k, sp)"
         "ApplyMigration engine f (sp\<lparr>visited := visited sp @ [Version f]\<rparr>) = (Some e, s')"
      by blast
    have "m # ms = (m # xs) @ f # ys" using h(1) by simp
    moreover have "apply_pending engine am (m # xs) n s = (Inr k, sp)"
      using True h(3) by simp
    ultimately show ?thesis using h(2,4) by blast
  next
    case False
    show ?thesis
    proof (cases "ApplyMigration engine m ?s0")
      case (Pair r s1)
      show ?thesis
      proof (cases r)
        case None
        with Pair False Cons.prems have "apply_pending engine am ms (n + 1) s1 = (Inl e, s')"
          by simp
        from Cons.IH[OF this] obtain xs f ys k sp where
          h: "ms = xs @ f # ys" "\<not> am (Version f)"
             "apply_pending engine am xs (n + 1) s1 = (Inr k, sp)"
             "ApplyMigration engine f (sp\<lparr>visited := visited sp @ [Version f]\<rparr>) = (Some e, s')"
          by blast
        have "m # ms = (m # xs) @ f # ys" using h(1) by simp
        moreover have "apply_pending engine am (m # xs) n s = (Inr k, sp)"
          using False Pair None h(3) by simp
        ultimately show ?thesis using h(2,4) by blast
      next
        case (Some err)
        with Pair False Cons.prems have "err = e" "s1 = s'" by simp_all
        then have "ApplyMigration engine m (s\<lparr>visited := visited s @ [Version m]\<rparr>) = (Some e, s')"
          using Pair Some by simp
        moreover have "m # ms = [] @ m # ms" by simp
        moreover have "apply_pending engine am [] n s = (Inr n, s)" by simp
        ultimately show ?thesis using False by blast
      qed
    qed
  qed
qed



subsection \<open>RunMigrations\<close>

lemma InitMigrationTable_ok:
  assumes "InitMigrationTable s = (None, s1)"
  shows "table s1 = Some (rows s)" "calls s1 = calls s @ [(CreateTable, True)]"
    "visited s1 = visited s" "stdout s1 = stdout s" "user s1 = user s"
    "faults s1 = tl (faults s)"
  using assms
  by (auto simp: InitMigrationTable_def db_defs rows_def split: list.splits option.splits)

lemma InitMigrationTable_err:
  assumes "InitMigrationTable s = (Some e, s1)"
  shows "table s1 = table s" "calls s1 = calls s @ [(CreateTable, False)]"
    "visited s1 = visited s" "stdout s1 = stdout s" "user s1 = user s"
  using assms
  by (auto simp: InitMigrationTable_def db_defs split: list.splits option.splits)

lemma foldl_append_each: "foldl (\<lambda>versions version. versions @ [version]) acc xs = acc @ xs"
  by (induction xs arbitrary: acc) simp_all

lemma GetAppliedMigrations_ok:
  assumes "GetAppliedMigrations s = (Inr vs, s1)"
  shows "vs = sort (map fst (rows s))" "table s1 = table s" "table s \<noteq> None"
    "calls s1 = calls s @ [(SelectVersions, True)]"
    "visited s1 = visited s" "stdout s1 = stdout s" "user s1 = user s"
  using assms
  by (auto simp: GetAppliedMigrations_def db_defs rows_def foldl_append_each
      split: list.splits option.splits prod.splits sum.splits)


lemma GetAppliedMigrations_err:
  assumes "GetAppliedMigrations s = (Inl e, s1)"
  shows "table s1 = table s" "calls s1 = calls s @ [(SelectVersions, False)]"
    "visited s1 = visited s" "stdout s1 = stdout s" "user s1 = user s"
  using assms
  by (auto simp: GetAppliedMigrations_def db_defs
      split: list.splits option.splits prod.splits sum.splits)

lemma appliedMap_set:
  "foldl (\<lambda>m version. m(version := True)) f vs = (\<lambda>v. f v \<or> v \<in> set vs)"
  by (induction vs arbitrary: f) (auto simp: fun_eq_iff)

lemma RunMigrations_cases [consumes 1, case_names init_failed get_failed load_failed apply_failed ok]:
  assumes "RunMigrations engine dir s = (r, s')"
  obtains
    (init_failed) e where "InitMigrationTable s = (Some e, s')"
      "r = Some (Errorf ''failed to initialize migration table'' e)"
  | (get_failed) s1 e where "InitMigrationTable s = (None, s1)"
      "GetAppliedMigrations s1 = (Inl e, s')"
      "r = Some (Errorf ''failed to get applied migrations'' e)"
  | (load_failed) s1 vs e where "InitMigrationTable s = (None, s1)"
      "GetAppliedMigrations s1 = (Inr vs, s')" "LoadMigrations dir = Inl e"
      "r = Some (Errorf ''failed to load migrations'' e)"
  | (apply_failed) s1 s2 vs ms e where "InitMigrationTable s = (None, s1)"
      "GetAppliedMigrations s1 = (Inr vs, s2)" "LoadMigrations dir = Inr ms"
      "apply_pending engine (\<lambda>v. v \<in> set vs) ms 0 s2 = (Inl e, s')" "r = Some e"
  | (ok) s1 s2 s3 vs ms k where "InitMigrationTable s = (None, s1)"
      "GetAppliedMigrations s1 = (Inr vs, s2)" "LoadMigrations dir = Inr ms"
      "apply_pending engine (\<lambda>v. v \<in> set vs) ms 0 s2 = (Inr k, s3)"
      "s' = s3\<lparr>stdout := stdout s3 @ [summary_line k]\<rparr>" "r = None"
proof (cases "InitMigrationTable s")
  case (Pair r1 s1)
  show ?thesis
  proof (cases r1)
    case (Some e)
    with Pair assms show ?thesis
      by (intro init_failed[of e]) (simp_all add: RunMigrations_def)
  next
    case None
    note i = Pair[unfolded None]
    show ?thesis
    proof (cases "GetAppliedMigrations s1")
      case g: (Pair r2 s2)
      show ?thesis
      proof (cases r2)
        case (Inl e)
        with i g assms show ?thesis
          by (intro get_failed[of s1 e]) (simp_all add: RunMigrations_def)
      next
        case (Inr vs)
        note g' = g[unfolded Inr]
        show ?thesis
        proof (cases "LoadMigrations dir")
          case (Inl e)
          with i g' assms show ?thesis
            by (intro load_failed[of s1 vs e]) (simp_all add: RunMigrations_def)
        next
          case l: (Inr ms)
          show ?thesis
          proof (cases "apply_pending engine (\<lambda>v. v \<in> set vs) ms 0 s2")
            case a: (Pair r3 s3)
            show ?thesis
            proof (cases r3)
              case (Inl e)
              with i g' l a assms show ?thesis
                by (intro apply_failed[of s1 vs s2 ms e])
                   (simp_all add: RunMigrations_def appliedMap_set)
            next
              case (Inr k)
              with i g' l a assms show ?thesis
                by (intro ok[of s1 vs s2 ms k s3])
                   (auto simp add: RunMigrations_def appliedMap_set summary_line_def)
            qed
          qed
        qed
      qed
    qed
  qed
qed



subsection \<open>LoadMigrations\<close>

lemma loaded_simps [simp]:
  "loaded dir [] = []"
  "loaded dir (file # files) =
     (case load_file dir file of Some (Inr m) \<Rightarrow> [m] | _ \<Rightarrow> []) @ loaded dir files"
  by (simp_all add: loaded_def)

lemma load_files_ok:
  "load_files dir files acc = Inr ms \<Longrightarrow> ms = acc @ loaded dir files"
  by (induction files arbitrary: acc) (fastforce split: option.splits sum.splits)+

lemma load_files_no_error:
  "load_files dir files acc = Inr ms \<Longrightarrow> file \<in> set files \<Longrightarrow> load_file dir file \<noteq> Some (Inl e)"
  by (induction files arbitrary: acc) (auto split: option.splits sum.splits)

lemma load_files_err:
  "load_files dir files acc = Inl e \<Longrightarrow> \<exists>file \<in> set files. load_file dir file = Some (Inl e)"
  by (induction files arbitrary: acc) (auto split: option.splits sum.splits)

lemma LoadMigrations_ok:
  assumes "LoadMigrations dir = Inr ms"
  shows "ms = sort_Slice (loaded dir (sql_files dir))" "sorted (map Version ms)"
    "set ms = set (loaded dir (sql_files dir))"
proof -
  from assms obtain raw where r: "load_files dir (sql_files dir) [] = Inr raw" "ms = sort_Slice raw"
    by (auto simp: LoadMigrations_def Glob_def split: sum.splits)
  from load_files_ok[OF r(1)] r(2) show "ms = sort_Slice (loaded dir (sql_files dir))" by simp
  then show "sorted (map Version ms)" "set ms = set (loaded dir (sql_files dir))"
    by (simp_all add: sort_Slice_def)
qed



subsection \<open>What a successful run applies\<close>






subsection \<open>A run stops at the first failure\<close>



subsection \<open>A second run applies nothing\<close>








subsection \<open>The order of the visits\<close>

lemma apply_pending_visited:
  assumes "apply_pending engine am ms n s = (r, s')"
  shows "\<exists>k. visited s' = visited s @ take k (map Version ms)"
proof (cases r)
  case (Inr c)
  from apply_pending_ok[OF assms[unfolded Inr]]
  have "visited s' = visited s @ take (length ms) (map Version ms)" by simp
  then show ?thesis ..
next
  case (Inl e)
  from apply_pending_err[OF assms[unfolded Inl]] obtain xs f ys k sp where
    h: "ms = xs @ f # ys" "apply_pending engine am xs n s = (Inr k, sp)"
       "ApplyMigration engine f (sp\<lparr>visited := visited sp @ [Version f]\<rparr>) = (Some e, s')"
    by blast
  have "visited s' = visited sp @ [Version f]"
    using ApplyMigration_err[OF h(3)] body_failure_frame(3) record_failure_frame(3)
    by fastforce
  moreover have "visited sp = visited s @ map Version xs"
    using apply_pending_ok[OF h(2)] by simp
  ultimately have "visited s' = visited s @ take (Suc (length xs)) (map Version ms)"
    using h(1) by simp
  then show ?thesis ..
qed

lemma RunMigrations_visited:
  assumes "RunMigrations engine dir s = (r, s')"
  shows "case LoadMigrations dir of
           Inl e \<Rightarrow> visited s' = visited s
         | Inr ms \<Rightarrow> (\<exists>k. visited s' = visited s @ take k (map Version ms)) \<and>
                     (r = None \<longrightarrow> visited s' = visited s @ map Version ms)"
  using assms
proof (cases rule: RunMigrations_cases)
  case (init_failed e)
  have "visited s' = visited s @ take 0 (map Version ms)" for ms
    using InitMigrationTable_err(3)[OF init_failed(1)] by simp
  then show ?thesis using init_failed(2) by (auto split: sum.splits)
next
  case (get_failed s1 e)
  have "visited s' = visited s @ take 0 (map Version ms)" for ms
    using InitMigrationTable_ok(3)[OF get_failed(1)] GetAppliedMigrations_err(3)[OF get_failed(2)]
    by simp
  then show ?thesis using get_failed(3) by (auto split: sum.splits)
next
  case (load_failed s1 vs e)
  then show ?thesis
    using InitMigrationTable_ok(3)[OF load_failed(1)] GetAppliedMigrations_ok(5)[OF load_failed(2)]
    by simp
next
  case (apply_failed s1 s2 vs ms e)
  have "visited s2 = visited s"
    using InitMigrationTable_ok(3)[OF apply_failed(1)]
      GetAppliedMigrations_ok(5)[OF apply_failed(2)] by simp
  with apply_pending_visited[OF apply_failed(4)] apply_failed(3,5) show ?thesis by simp
next
  case (ok s1 s2 s3 vs ms k)
  have "visited s2 = visited s"
    using InitMigrationTable_ok(3)[OF ok(1)] GetAppliedMigrations_ok(5)[OF ok(2)] by simp
  with apply_pending_ok[OF ok(4)] ok(5)
  have "visited s' = visited s @ map Version ms" by simp
  moreover from this have "\<exists>j. visited s' = visited s @ take j (map Version ms)"
    by (intro exI[of _ "length ms"]) simp
  ultimately show ?thesis using ok(3) by simp
qed

text \<open>
  Claim C6, as the code has it. The versions a run visits, \<open>vs\<close>, are a beginning of the
  versions of the loaded list (the whole of it when the run returns without error) and
  ascend. They ascend strictly when the loaded migrations have pairwise different
  versions; two files of one version are both visited.
\<close>

theorem visits_ascend:
  assumes "RunMigrations engine dir s = (r, s')"
  shows "let vs = drop (length (visited s)) (visited s') in
           visited s' = visited s @ vs \<and> sorted vs \<and>
           (case LoadMigrations dir of
              Inl e \<Rightarrow> vs = []
            | Inr ms \<Rightarrow> (\<exists>k. vs = take k (map Version ms)) \<and>
                        (r = None \<longrightarrow> vs = map Version ms) \<and>
                        (distinct (map Version ms) \<longrightarrow> sorted_wrt (<) vs))"
proof (cases "LoadMigrations dir")
  case (Inl e)
  with RunMigrations_visited[OF assms] show ?thesis by simp
next
  case (Inr ms)
  with RunMigrations_visited[OF assms] have
    e: "\<exists>k. visited s' = visited s @ take k (map Version ms)" and
    a: "r = None \<longrightarrow> visited s' = visited s @ map Version ms"
    by simp_all
  from e obtain k where k: "visited s' = visited s @ take k (map Version ms)" ..
  have s: "sorted (take k (map Version ms))"
    using LoadMigrations_ok(2)[OF Inr] by (rule sorted_wrt_take)
  have d: "distinct (map Version ms) \<Longrightarrow> sorted_wrt (<) (take k (map Version ms))"
    using s by (simp add: strict_sorted_iff)
  show ?thesis using Inr k a s d by (auto simp: Let_def)
qed

theorem visits_ascend_witness:
  "RunMigrations log_engine dir_123 state_2_applied =
     (None,
      \<lparr>table = Some [(2, ''b''), (1, ''a''), (3, ''c'')], user = [''A'', ''C''], faults = [],
       calls = [(CreateTable, True), (SelectVersions, True),
                (ExecBody ''A'', True), (InsertRecord 1 ''a'', True),
                (ExecBody ''C'', True), (InsertRecord 3 ''c'', True)],
       stdout = [''Applied migration 1: a'', ''Applied migration 3: c'',
                 ''Applied 2 migrations successfully''],
       visited = [1, 2, 3]\<rparr>)
   \<and> sorted_wrt (<) [1, 2, 3 :: int]"
proof -
  have h: "RunMigrations log_engine dir_123 state_2_applied =
     (None,
      \<lparr>table = Some [(2, ''b''), (1, ''a''), (3, ''c'')], user = [''A'', ''C''], faults = [],
       calls = [(CreateTable, True), (SelectVersions, True),
                (ExecBody ''A'', True), (InsertRecord 1 ''a'', True),
                (ExecBody ''C'', True), (InsertRecord 3 ''c'', True)],
       stdout = [''Applied migration 1: a'', ''Applied migration 3: c'',
                 ''Applied 2 migrations successfully''],
       visited = [1, 2, 3]\<rparr>)"
    by code_simp
  have l: "LoadMigrations dir_123 = Inr [\<lparr>Version = 1, Name = ''a'', SQL = ''A''\<rparr>,
      \<lparr>Version = 2, Name = ''b'', SQL = ''B''\<rparr>, \<lparr>Version = 3, Name = ''c'', SQL = ''C''\<rparr>]"
    by code_simp
  from visits_ascend[OF h] show ?thesis
    using h by (simp add: l Let_def state_2_applied_def)
qed

text \<open>
  Claim C6 as stated fails: with the files \<^verbatim>\<open>1_a.sql\<close> and \<^verbatim>\<open>01_b.sql\<close> the run visits
  the version 1 twice, and executes both bodies.
\<close>

theorem visits_not_strictly_ascending:
  "visited (snd (RunMigrations log_engine dir_dup fresh_state)) = [1, 1]
   \<and> \<not> sorted_wrt (<) (visited (snd (RunMigrations log_engine dir_dup fresh_state)))
   \<and> calls (snd (RunMigrations log_engine dir_dup fresh_state)) =
       [(CreateTable, True), (SelectVersions, True), (ExecBody ''B'', True),
        (InsertRecord 1 ''b'', True), (ExecBody ''A'', True), (InsertRecord 1 ''a'', False)]"
  by code_simp

subsection \<open>The invariant of the bookkeeping table\<close>















subsection \<open>A record insertion that fails\<close>






subsection \<open>ApplyMigration on a version that is recorded\<close>





subsection \<open>The errors and their context\<close>









subsection \<open>Discovery\<close>


















subsection \<open>The migration of a well-named file\<close>



lemma digit_val_digit_char: "d < 10 \<Longrightarrow> digit_val (digit_char d) = int d"
proof -
  assume "d < 10"
  then have "d \<in> {0, 1, 2, 3, 4, 5, 6, 7, 8, 9}" by auto
  then show ?thesis by (auto simp: digit_val_def digit_char_def)
qed

lemma decimal_snoc: "decimal (ds @ [c]) = decimal ds * 10 + digit_val c"
  by (simp add: decimal_def)

lemma decimal_utoa: "decimal (utoa n) = int n"
proof (induction n rule: utoa.induct)
  case (1 n)
  show ?case
  proof (cases "n < 10")
    case True
    then show ?thesis
      by (subst utoa.simps) (simp add: decimal_def digit_val_digit_char)
  next
    case False
    with 1 have "decimal (utoa (n div 10)) = int (n div 10)" by simp
    with False show ?thesis
      by (subst utoa.simps) (simp add: decimal_snoc digit_val_digit_char zdiv_int zmod_int)
  qed
qed




end
